theory Spec2Isabelle
  imports Main "HOL-Library.Product_Lexorder" "HOL-Library.Monad_Syntax"
begin

section \<open>Python values used by \<open>app.py\<close>\<close>

text \<open>
  A Python \<open>str\<close> is modelled as a \<open>string\<close> holding its UTF-8 bytes. The functions of
  \<open>app.py\<close> that look inside a string (\<open>strip\<close>, \<open>int\<close>, \<open>datetime.strptime\<close>) only
  distinguish ASCII white space, ASCII digits, signs and punctuation; the non-ASCII
  white space and digits that Python also accepts are outside the model.
\<close>

datatype py_exn = ValueError | TypeError | AttributeError | OverflowError

definition is_space :: "char \<Rightarrow> bool" where
  "is_space c = (let n = (of_char c :: nat) in (9 \<le> n \<and> n \<le> 13) \<or> (28 \<le> n \<and> n \<le> 32))"

text \<open>
  The white space \<open>int\<close> skips around the digits of an ASCII string is C's: the
  separators 28 to 31 are not part of it.
\<close>

definition is_c_space :: "char \<Rightarrow> bool" where
  "is_c_space c = (let n = (of_char c :: nat) in (9 \<le> n \<and> n \<le> 13) \<or> n = 32)"

definition is_digit :: "char \<Rightarrow> bool" where
  "is_digit c = (let n = (of_char c :: nat) in 48 \<le> n \<and> n \<le> 57)"

definition digit_val :: "char \<Rightarrow> nat" where
  "digit_val c = of_char c - 48"

definition digit_char :: "nat \<Rightarrow> char" where
  "digit_char n = char_of (48 + n)"

text \<open>\<open>s.strip()\<close>: leading and trailing white space removed.\<close>

definition strip_with :: "(char \<Rightarrow> bool) \<Rightarrow> string \<Rightarrow> string" where
  "strip_with p s = rev (dropWhile p (rev (dropWhile p s)))"

definition strip :: "string \<Rightarrow> string" where
  "strip s = strip_with is_space s"

text \<open>Truth value of a string or of an optional string (\<open>not x\<close> is its negation).\<close>

definition truthy :: "string \<Rightarrow> bool" where
  "truthy s = (s \<noteq> [])"

definition truthy_opt :: "string option \<Rightarrow> bool" where
  "truthy_opt x = (case x of None \<Rightarrow> False | Some s \<Rightarrow> truthy s)"

text \<open>\<open>str(n)\<close> and the \<open>{n}\<close> of an f-string, for an integer \<open>n\<close>.\<close>

fun str_nat :: "nat \<Rightarrow> string" where
  "str_nat n = (if n < 10 then [digit_char n] else str_nat (n div 10) @ [digit_char (n mod 10)])"

declare str_nat.simps [simp del]

definition str_int :: "int \<Rightarrow> string" where
  "str_int i = (if i < 0 then CHR ''-'' # str_nat (nat (- i)) else str_nat (nat i))"

text \<open>The value of a run of decimal digits.\<close>

definition digits_val :: "string \<Rightarrow> nat" where
  "digits_val ds = foldl (\<lambda>a c. a * 10 + digit_val c) 0 ds"

text \<open>
  \<open>int(s)\<close> for a string: surrounding C white space is dropped, one sign is allowed, and
  the rest is decimal digits, where single underscores may stand between digits. Since
  Python 3.11 more than 4300 digits are refused. Everything else is a \<open>ValueError\<close>.
\<close>

fun digit_groups :: "string \<Rightarrow> bool" where
  "digit_groups [] = False"
| "digit_groups [c] = is_digit c"
| "digit_groups (c # d # s) =
     (is_digit c \<and> (if d = CHR ''_'' then digit_groups s else digit_groups (d # s)))"

definition int_of_unsigned :: "string \<Rightarrow> py_exn + int" where
  "int_of_unsigned s =
     (if digit_groups s \<and> length (filter is_digit s) \<le> 4300
      then Inr (int (digits_val (filter is_digit s))) else Inl ValueError)"

definition int_of_str :: "string \<Rightarrow> py_exn + int" where
  "int_of_str s =
     (case strip_with is_c_space s of
        [] \<Rightarrow> Inl ValueError
      | c # r \<Rightarrow>
          if c = CHR ''-'' then map_sum id uminus (int_of_unsigned r)
          else if c = CHR ''+'' then int_of_unsigned r
          else int_of_unsigned (c # r))"

section \<open>\<open>datetime\<close>\<close>

text \<open>
  A naive \<open>datetime\<close> object is its seven fields. Comparison is Python's: the tuples of
  fields in lexicographic order.
\<close>

record datetime =
  year :: nat
  month :: nat
  day :: nat
  hour :: nat
  minute :: nat
  second :: nat
  microsecond :: nat

definition is_leap :: "nat \<Rightarrow> bool" where
  "is_leap y = (y mod 4 = 0 \<and> (y mod 100 \<noteq> 0 \<or> y mod 400 = 0))"

definition days_in_month :: "nat \<Rightarrow> nat \<Rightarrow> nat" where
  "days_in_month y m =
     (if m = 2 then (if is_leap y then 29 else 28)
      else if m = 4 \<or> m = 6 \<or> m = 9 \<or> m = 11 then 30 else 31)"


definition dt_key :: "datetime \<Rightarrow> nat \<times> nat \<times> nat \<times> nat \<times> nat \<times> nat \<times> nat" where
  "dt_key d = (year d, month d, day d, hour d, minute d, second d, microsecond d)"

definition dt_le :: "datetime \<Rightarrow> datetime \<Rightarrow> bool" where
  "dt_le a b = (dt_key a \<le> dt_key b)"

text \<open>
  \<open>d + timedelta(minutes=n)\<close>. Python goes through the day's ordinal; the model carries
  the minutes into the hour and the whole days into the date, one day at a time. A result
  after 9999-12-31 is Python's \<open>OverflowError\<close>, here \<open>None\<close>.
\<close>

definition next_day :: "datetime \<Rightarrow> datetime option" where
  "next_day d =
     (if day d < days_in_month (year d) (month d) then Some (d\<lparr>day := day d + 1\<rparr>)
      else if month d < 12 then Some (d\<lparr>month := month d + 1, day := 1\<rparr>)
      else if year d < 9999 then Some (d\<lparr>year := year d + 1, month := 1, day := 1\<rparr>)
      else None)"

primrec add_days :: "nat \<Rightarrow> datetime \<Rightarrow> datetime option" where
  "add_days 0 d = Some d"
| "add_days (Suc k) d = (case next_day d of None \<Rightarrow> None | Some d' \<Rightarrow> add_days k d')"

definition plus_minutes :: "datetime \<Rightarrow> nat \<Rightarrow> datetime option" where
  "plus_minutes d n =
     (let total = hour d * 60 + minute d + n
      in add_days (total div 1440)
           (d\<lparr>hour := (total mod 1440) div 60, minute := total mod 60\<rparr>))"

text \<open>\<open>d.date().isoformat()\<close>: \<open>"%04d-%02d-%02d"\<close> of year, month and day.\<close>

definition zero_pad :: "nat \<Rightarrow> nat \<Rightarrow> string" where
  "zero_pad w n = replicate (w - length (str_nat n)) CHR ''0'' @ str_nat n"

definition date_isoformat :: "datetime \<Rightarrow> string" where
  "date_isoformat d = zero_pad 4 (year d) @ ''-'' @ zero_pad 2 (month d) @ ''-'' @ zero_pad 2 (day d)"

subsection \<open>\<open>datetime.strptime(s, "%Y-%m-%d %H:%M")\<close>\<close>

text \<open>
  \<open>strptime\<close> turns the format into the regular expression
  \<^verbatim>\<open>(?P<Y>\d\d\d\d)-(?P<m>1[0-2]|0[1-9]|[1-9])-(?P<d>3[0-1]|[1-2]\d|0[1-9]|[1-9]| [1-9])\s+(?P<H>2[0-3]|[0-1]\d|\d):(?P<M>[0-5]\d|\d)\<close>,
  matches it at the start of the string, refuses a match that leaves text over, converts
  the groups with \<open>int\<close> and builds the \<open>datetime\<close>, which checks the date. Every refusal
  is a \<open>ValueError\<close>. A regular expression is modelled by the list of its matches in the
  order the backtracking matcher tries them, each with the text it leaves; the first
  match of the whole expression is the head of the list.
\<close>

type_synonym rx = "string \<Rightarrow> (string \<times> string) list"

definition in_range :: "char \<Rightarrow> char \<Rightarrow> char \<Rightarrow> bool" where
  "in_range lo hi c = ((of_char lo :: nat) \<le> of_char c \<and> (of_char c :: nat) \<le> of_char hi)"

fun rx1 :: "(char \<Rightarrow> bool) \<Rightarrow> rx" where
  "rx1 p (a # s) = (if p a then [([a], s)] else [])"
| "rx1 p [] = []"

fun rx2 :: "(char \<Rightarrow> bool) \<Rightarrow> (char \<Rightarrow> bool) \<Rightarrow> rx" where
  "rx2 p q (a # b # s) = (if p a \<and> q b then [([a, b], s)] else [])"
| "rx2 p q s = []"

fun rx_Y :: rx where
  "rx_Y (a # b # c # d # s) =
     (if is_digit a \<and> is_digit b \<and> is_digit c \<and> is_digit d then [([a, b, c, d], s)] else [])"
| "rx_Y s = []"

definition rx_m :: rx where
  "rx_m s = rx2 (\<lambda>c. c = CHR ''1'') (in_range CHR ''0'' CHR ''2'') s
          @ rx2 (\<lambda>c. c = CHR ''0'') (in_range CHR ''1'' CHR ''9'') s
          @ rx1 (in_range CHR ''1'' CHR ''9'') s"

definition rx_d :: rx where
  "rx_d s = rx2 (\<lambda>c. c = CHR ''3'') (in_range CHR ''0'' CHR ''1'') s
          @ rx2 (in_range CHR ''1'' CHR ''2'') is_digit s
          @ rx2 (\<lambda>c. c = CHR ''0'') (in_range CHR ''1'' CHR ''9'') s
          @ rx1 (in_range CHR ''1'' CHR ''9'') s
          @ rx2 (\<lambda>c. c = CHR '' '') (in_range CHR ''1'' CHR ''9'') s"

definition rx_H :: rx where
  "rx_H s = rx2 (\<lambda>c. c = CHR ''2'') (in_range CHR ''0'' CHR ''3'') s
          @ rx2 (in_range CHR ''0'' CHR ''1'') is_digit s
          @ rx1 is_digit s"

definition rx_M :: rx where
  "rx_M s = rx2 (in_range CHR ''0'' CHR ''5'') is_digit s @ rx1 is_digit s"

text \<open>\<open>\s+\<close> is greedy: the longest run of white space first, then the shorter ones.\<close>

definition rx_spaces :: rx where
  "rx_spaces s =
     map (\<lambda>k. (take k s, drop k s)) (rev [1 ..< Suc (length (takeWhile is_space s))])"

definition strptime_regex :: "string \<Rightarrow> ((string \<times> string \<times> string \<times> string \<times> string) \<times> string) list" where
  "strptime_regex s0 = do {
     (gY, s1) \<leftarrow> rx_Y s0;
     (_, s2) \<leftarrow> rx1 (\<lambda>c. c = CHR ''-'') s1;
     (gm, s3) \<leftarrow> rx_m s2;
     (_, s4) \<leftarrow> rx1 (\<lambda>c. c = CHR ''-'') s3;
     (gd, s5) \<leftarrow> rx_d s4;
     (_, s6) \<leftarrow> rx_spaces s5;
     (gH, s7) \<leftarrow> rx_H s6;
     (_, s8) \<leftarrow> rx1 (\<lambda>c. c = CHR '':'') s7;
     (gM, s9) \<leftarrow> rx_M s8;
     [((gY, gm, gd, gH, gM), s9)]
   }"

text \<open>\<open>int\<close> of a group: digits, for the day possibly after one blank.\<close>

definition group_int :: "string \<Rightarrow> nat" where
  "group_int g = digits_val (filter is_digit g)"

definition strptime :: "string \<Rightarrow> py_exn + datetime" where
  "strptime data_string =
     (case strptime_regex data_string of
        [] \<Rightarrow> Inl ValueError
      | ((gY, gm, gd, gH, gM), rest) # _ \<Rightarrow>
          if rest \<noteq> [] then Inl ValueError
          else if group_int gY < 1 \<or> days_in_month (group_int gY) (group_int gm) < group_int gd
          then Inl ValueError
          else Inr \<lparr>year = group_int gY, month = group_int gm, day = group_int gd,
                    hour = group_int gH, minute = group_int gM, second = 0, microsecond = 0\<rparr>)"

section \<open>The store\<close>

text \<open>
  The \<open>sessions\<close> and \<open>subjects\<close> tables, with the columns of \<open>init_db\<close>. The integer
  columns \<open>completed\<close> and \<open>reminder_sent\<close> are kept as integers, as SQL compares them. The
  keys are \<open>AUTOINCREMENT\<close> / \<open>SERIAL\<close>: an insert takes the next value of a counter that
  only grows. Each call of the helpers \<open>query\<close>, \<open>execute\<close> and \<open>execute_many\<close> is
  recorded in \<open>db_log\<close>, and each request handed to \<open>urllib.request.urlopen\<close> in \<open>outbox\<close>.
  Store failures (a lost connection, an integer the engine cannot hold) are not modelled.
\<close>

record session_row =
  sid :: int
  user_id :: int
  subject_id :: "int option"
  title :: string
  session_date :: string
  session_time :: string
  duration_min :: int
  priority :: string
  notes_txt :: string
  completed :: int
  reminder_sent :: int

record subject_row =
  subj_id :: int
  subj_user :: int
  subj_name :: string
  subj_color :: string

datatype db_call = Query | Execute | ExecuteMany nat

record telegram_request =
  req_url :: string
  req_chat_id :: string
  req_text :: string

record world =
  sessions :: "session_row list"
  subjects :: "subject_row list"
  next_session_id :: int
  next_subject_id :: int
  db_log :: "db_call list"
  outbox :: "telegram_request list"

definition log_call :: "db_call \<Rightarrow> world \<Rightarrow> world" where
  "log_call c w = w\<lparr>db_log := db_log w @ [c]\<rparr>"

section \<open>Configuration and the network\<close>

text \<open>
  \<open>TELEGRAM_BOT_TOKEN\<close> and \<open>TELEGRAM_CHAT_ID\<close> are what \<open>os.getenv\<close> returned: \<open>None\<close> or
  a string. \<open>urlopen\<close> is a parameter: it answers a request or raises one of the
  failures below, all of them subclasses of \<open>Exception\<close>.
\<close>

record config =
  telegram_bot_token :: "string option"
  telegram_chat_id :: "string option"

definition REMINDER_MINUTES :: nat where
  "REMINDER_MINUTES = 30"

datatype net_failure = Timeout | DNSFailure | HTTPError nat | ConnectionFailure

type_synonym network = "telegram_request \<Rightarrow> net_failure + unit"

definition configured :: "config \<Rightarrow> bool" where
  "configured cfg = (truthy_opt (telegram_bot_token cfg) \<and> truthy_opt (telegram_chat_id cfg))"

text \<open>
  \<open>send_telegram_message\<close>: the request is the URL and the two form fields.
  \<open>urlencode\<close> and the byte encoding are not modelled: on the UTF-8 strings of the model
  they cannot fail. The \<open>try\<close> around \<open>urlopen\<close> passes on any failure.
\<close>

definition env_value :: "string option \<Rightarrow> string" where
  "env_value x = (case x of None \<Rightarrow> [] | Some s \<Rightarrow> s)"

definition build_request :: "config \<Rightarrow> string \<Rightarrow> telegram_request" where
  "build_request cfg text =
     \<lparr>req_url = ''https://api.telegram.org/bot'' @ env_value (telegram_bot_token cfg) @ ''/sendMessage'',
      req_chat_id = env_value (telegram_chat_id cfg),
      req_text = text\<rparr>"

definition send_telegram_message :: "config \<Rightarrow> network \<Rightarrow> string \<Rightarrow> world \<Rightarrow> py_exn + world" where
  "send_telegram_message cfg urlopen text w =
     (if \<not> truthy_opt (telegram_bot_token cfg) \<or> \<not> truthy_opt (telegram_chat_id cfg) then Inr w
      else
        let req = build_request cfg text;
            w' = w\<lparr>outbox := outbox w @ [req]\<rparr>
        in (case urlopen req of Inl failure \<Rightarrow> Inr w' | Inr response \<Rightarrow> Inr w'))"

section \<open>The reminder sweep\<close>

text \<open>The fixed texts of the messages, as UTF-8 bytes.\<close>

definition utf8 :: "nat list \<Rightarrow> string" where
  "utf8 bs = map char_of bs"

definition msg_reminder :: string where
  "msg_reminder = utf8 [208, 157, 208, 176, 208, 191, 208, 190, 208, 188, 208, 184, 208, 189,
     208, 176, 208, 189, 208, 184, 208, 181, 58, 32, 209, 129, 208, 186, 208, 190, 209, 128,
     208, 190, 32, 208, 183, 208, 176, 208, 189, 209, 143, 209, 130, 208, 184, 208, 181]"

definition msg_at :: string where
  "msg_at = utf8 [32, 208, 178, 32]"

definition msg_min :: string where
  "msg_min = utf8 [32, 208, 188, 208, 184, 208, 189]"

definition reminder_text :: "session_row \<Rightarrow> string" where
  "reminder_text row =
     msg_reminder @ [CHR 0x0A] @ title row @ msg_at @ session_time row @ '' (''
       @ str_int (duration_min row) @ msg_min @ '')''"

text \<open>
  The candidate query. The model returns the whole rows, of which the loop reads the five
  selected columns, in the order of the table.
\<close>

definition is_candidate :: "int \<Rightarrow> string \<Rightarrow> session_row \<Rightarrow> bool" where
  "is_candidate uid today r =
     (user_id r = uid \<and> session_date r = today \<and> completed r = 0 \<and> reminder_sent r = 0)"

definition query_candidates :: "int \<Rightarrow> string \<Rightarrow> world \<Rightarrow> session_row list \<times> world" where
  "query_candidates uid today w = (filter (is_candidate uid today) (sessions w), log_call Query w)"

text \<open>\<open>UPDATE sessions SET reminder_sent = 1 WHERE id = ?\<close>, once for each id of the list.\<close>

definition mark_sent :: "int \<Rightarrow> session_row list \<Rightarrow> session_row list" where
  "mark_sent i rows = map (\<lambda>r. if sid r = i then r\<lparr>reminder_sent := 1\<rparr> else r) rows"

definition execute_many_mark :: "int list \<Rightarrow> world \<Rightarrow> world" where
  "execute_many_mark ids w =
     log_call (ExecuteMany (length ids)) (w\<lparr>sessions := foldl (\<lambda>rows i. mark_sent i rows) (sessions w) ids\<rparr>)"

text \<open>The body of the \<open>for\<close> loop, with \<open>to_mark\<close> and the world as the loop's state.\<close>

definition in_window :: "datetime \<Rightarrow> datetime \<Rightarrow> datetime \<Rightarrow> bool" where
  "in_window now window_end session_dt = (dt_le now session_dt \<and> dt_le session_dt window_end)"

fun reminder_loop ::
  "config \<Rightarrow> network \<Rightarrow> datetime \<Rightarrow> datetime \<Rightarrow> session_row list \<Rightarrow> int list \<times> world
     \<Rightarrow> py_exn + int list \<times> world" where
  "reminder_loop cfg urlopen now window_end [] st = Inr st"
| "reminder_loop cfg urlopen now window_end (row # rows) (to_mark, w) =
     (case strptime (session_date row @ '' '' @ session_time row) of
        Inl e \<Rightarrow>
          if e = ValueError then reminder_loop cfg urlopen now window_end rows (to_mark, w)
          else Inl e
      | Inr session_dt \<Rightarrow>
          if in_window now window_end session_dt
          then (case send_telegram_message cfg urlopen (reminder_text row) w of
                  Inl e \<Rightarrow> Inl e
                | Inr w' \<Rightarrow> reminder_loop cfg urlopen now window_end rows (to_mark @ [sid row], w'))
          else reminder_loop cfg urlopen now window_end rows (to_mark, w))"

definition send_due_reminders :: "config \<Rightarrow> network \<Rightarrow> datetime \<Rightarrow> int \<Rightarrow> world \<Rightarrow> py_exn + world" where
  "send_due_reminders cfg urlopen now uid w =
     (if \<not> truthy_opt (telegram_bot_token cfg) \<or> \<not> truthy_opt (telegram_chat_id cfg) then Inr w
      else
        case plus_minutes now REMINDER_MINUTES of
          None \<Rightarrow> Inl OverflowError
        | Some window_end \<Rightarrow>
            let today = date_isoformat now;
                (rows, w1) = query_candidates uid today w
            in (case reminder_loop cfg urlopen now window_end rows ([], w1) of
                  Inl e \<Rightarrow> Inl e
                | Inr (to_mark, w2) \<Rightarrow>
                    if to_mark \<noteq> [] then Inr (execute_many_mark to_mark w2) else Inr w2))"

section \<open>The routes that write sessions\<close>

text \<open>
  A route returns its response and the world it leaves. An exception that leaves a route
  is the server's error response; what the route wrote before stays written, since every
  \<open>execute\<close> commits on its own.
\<close>

datatype response = Redirect string | Page string | ServerError py_exn

type_synonym form = "(string \<times> string) list"

text \<open>\<open>request.form.get(key, default)\<close>\<close>

definition form_get :: "form \<Rightarrow> string \<Rightarrow> string \<Rightarrow> string" where
  "form_get f k d = (case map_of f k of None \<Rightarrow> d | Some v \<Rightarrow> v)"

definition default_priority :: string where
  "default_priority = utf8 [208, 161, 209, 128, 208, 181, 208, 180, 208, 189, 208, 184, 208, 185]"

definition msg_new_session :: string where
  "msg_new_session = utf8 [208, 157, 208, 190, 208, 178, 208, 190, 208, 181, 32, 208, 183, 208,
     176, 208, 189, 209, 143, 209, 130, 208, 184, 208, 181, 58, 32]"

definition msg_when :: string where
  "msg_when = utf8 [208, 154, 208, 190, 208, 179, 208, 180, 208, 176, 58, 32]"

definition msg_duration :: string where
  "msg_duration = utf8 [208, 148, 208, 187, 208, 184, 209, 130, 208, 181, 208, 187, 209, 140,
     208, 189, 208, 190, 209, 129, 209, 130, 209, 140, 58, 32]"

definition msg_priority :: string where
  "msg_priority = utf8 [208, 159, 209, 128, 208, 184, 208, 190, 209, 128, 208, 184, 209, 130,
     208, 181, 209, 130, 58, 32]"

definition new_session_text :: "string \<Rightarrow> string \<Rightarrow> string \<Rightarrow> int \<Rightarrow> string \<Rightarrow> string" where
  "new_session_text title_v date_v time_v minutes priority_v =
     msg_new_session @ title_v @ [CHR 0x0A]
       @ msg_when @ date_v @ '' '' @ time_v @ [CHR 0x0A]
       @ msg_duration @ str_int minutes @ msg_min @ [CHR 0x0A]
       @ msg_priority @ priority_v"

text \<open>
  \<open>INSERT INTO sessions\<close>: the row gets the next key. Both inserts of \<open>app.py\<close> leave
  \<open>reminder_sent\<close> at 0 (the form's insert writes it, the imports' inserts take the
  column's default), and the caller passes it so.
\<close>

definition insert_session :: "session_row \<Rightarrow> world \<Rightarrow> world" where
  "insert_session r w =
     log_call Execute
       (w\<lparr>sessions := sessions w @ [r\<lparr>sid := next_session_id w\<rparr>],
          next_session_id := next_session_id w + 1\<rparr>)"

definition insert_subject :: "subject_row \<Rightarrow> world \<Rightarrow> world" where
  "insert_subject s w =
     log_call Execute
       (w\<lparr>subjects := subjects w @ [s\<lparr>subj_id := next_subject_id w\<rparr>],
          next_subject_id := next_subject_id w + 1\<rparr>)"

definition create_session :: "config \<Rightarrow> network \<Rightarrow> int \<Rightarrow> form \<Rightarrow> world \<Rightarrow> response \<times> world" where
  "create_session cfg urlopen uid f w =
     (let title_v = strip (form_get f ''title'' []);
          subject_v = strip (form_get f ''subject_id'' []);
          date_v = strip (form_get f ''session_date'' []);
          time_v = strip (form_get f ''session_time'' []);
          duration_v = strip (form_get f ''duration_min'' []);
          priority_v = strip (form_get f ''priority'' default_priority);
          notes_v = strip (form_get f ''notes'' [])
      in if \<not> truthy title_v \<or> \<not> truthy date_v \<or> \<not> truthy time_v \<or> \<not> truthy duration_v
         then (Redirect ''dashboard'', w)
         else
           case int_of_str duration_v of
             Inl e \<Rightarrow> if e = ValueError then (Redirect ''dashboard'', w) else (ServerError e, w)
           | Inr n \<Rightarrow>
               let minutes = max 10 n;
                   subject_value =
                     (if truthy subject_v
                      then (case int_of_str subject_v of
                              Inl e \<Rightarrow> if e = ValueError then Inr None else Inl e
                            | Inr v \<Rightarrow> Inr (Some v))
                      else Inr None)
               in case subject_value of
                    Inl e \<Rightarrow> (ServerError e, w)
                  | Inr subject_value \<Rightarrow>
                      let w1 = insert_session
                                 \<lparr>sid = 0, user_id = uid, subject_id = subject_value,
                                  title = title_v, session_date = date_v, session_time = time_v,
                                  duration_min = minutes, priority = priority_v,
                                  notes_txt = notes_v, completed = 0, reminder_sent = 0\<rparr> w
                      in (case send_telegram_message cfg urlopen
                                 (new_session_text title_v date_v time_v minutes priority_v) w1 of
                            Inl e \<Rightarrow> (ServerError e, w1)
                          | Inr w2 \<Rightarrow> (Redirect ''dashboard'', w2)))"

definition toggle_session :: "int \<Rightarrow> int \<Rightarrow> world \<Rightarrow> response \<times> world" where
  "toggle_session uid session_id w =
     (Redirect ''dashboard'',
      log_call Execute
        (w\<lparr>sessions :=
             map (\<lambda>r. if sid r = session_id \<and> user_id r = uid
                       then r\<lparr>completed := (if completed r = 1 then 0 else 1)\<rparr> else r)
               (sessions w)\<rparr>))"

definition delete_session :: "int \<Rightarrow> int \<Rightarrow> world \<Rightarrow> response \<times> world" where
  "delete_session uid session_id w =
     (Redirect ''dashboard'',
      log_call Execute
        (w\<lparr>sessions := filter (\<lambda>r. \<not> (sid r = session_id \<and> user_id r = uid)) (sessions w)\<rparr>))"

definition create_subject :: "int \<Rightarrow> form \<Rightarrow> world \<Rightarrow> response \<times> world" where
  "create_subject uid f w =
     (let name_v = strip (form_get f ''name'' []);
          color_v = strip (form_get f ''color'' ''#e7dfd5'')
      in if \<not> truthy name_v then (Redirect ''subjects'', w)
         else (Redirect ''subjects'',
               insert_subject \<lparr>subj_id = 0, subj_user = uid, subj_name = name_v, subj_color = color_v\<rparr> w))"

definition delete_subject :: "int \<Rightarrow> int \<Rightarrow> world \<Rightarrow> response \<times> world" where
  "delete_subject uid i w =
     (let w1 = log_call Execute
                 (w\<lparr>sessions :=
                      map (\<lambda>r. if subject_id r = Some i \<and> user_id r = uid
                                then r\<lparr>subject_id := None\<rparr> else r)
                        (sessions w)\<rparr>);
          w2 = log_call Execute
                 (w1\<lparr>subjects := filter (\<lambda>s. \<not> (subj_id s = i \<and> subj_user s = uid)) (subjects w1)\<rparr>)
      in (Redirect ''subjects'', w2))"

text \<open>
  The subject of an imported row: the id of the user's subject of that name, inserted
  first when there is none.
\<close>

definition find_subject :: "int \<Rightarrow> string \<Rightarrow> world \<Rightarrow> int option" where
  "find_subject uid name_v w =
     map_option subj_id (find (\<lambda>s. subj_user s = uid \<and> subj_name s = name_v) (subjects w))"

definition resolve_subject :: "int \<Rightarrow> string \<Rightarrow> world \<Rightarrow> int option \<times> world" where
  "resolve_subject uid name_v w =
     (case find_subject uid name_v w of
        Some i \<Rightarrow> (Some i, log_call Query w)
      | None \<Rightarrow>
          let w1 = log_call Query w;
              w2 = insert_subject
                     \<lparr>subj_id = 0, subj_user = uid, subj_name = name_v, subj_color = ''#e7dfd5''\<rparr> w1;
              w3 = log_call Query w2
          in (find_subject uid name_v w3, w3))"

subsection \<open>JSON import\<close>

text \<open>
  The uploaded file after \<open>json.loads\<close>. The loop needs the items of the document; an
  item is an object, read with \<open>item.get\<close>, or anything else, where \<open>item.get\<close> is an
  \<open>AttributeError\<close>. The members the loop reads are null, booleans, integers or strings;
  floats and nested values are outside the model. A document that cannot be iterated is
  a \<open>TypeError\<close>.
\<close>

datatype json_scalar = JNull | JBool bool | JInt int | JStr string

datatype json_item = JObject "(string \<times> json_scalar) list" | JOther

datatype json_upload = NoFile | Undecodable | NotIterable | Items "json_item list"

definition item_get :: "(string \<times> json_scalar) list \<Rightarrow> string \<Rightarrow> json_scalar \<Rightarrow> json_scalar" where
  "item_get kvs k d = (case map_of kvs k of None \<Rightarrow> d | Some v \<Rightarrow> v)"

fun py_str :: "json_scalar \<Rightarrow> string" where
  "py_str JNull = ''None''"
| "py_str (JBool b) = (if b then ''True'' else ''False'')"
| "py_str (JInt n) = str_int n"
| "py_str (JStr s) = s"

fun py_int :: "json_scalar \<Rightarrow> py_exn + int" where
  "py_int JNull = Inl TypeError"
| "py_int (JBool b) = Inr (if b then 1 else 0)"
| "py_int (JInt n) = Inr n"
| "py_int (JStr s) = int_of_str s"

fun py_bool :: "json_scalar \<Rightarrow> bool" where
  "py_bool JNull = False"
| "py_bool (JBool b) = b"
| "py_bool (JInt n) = (n \<noteq> 0)"
| "py_bool (JStr s) = truthy s"

fun import_json_items :: "int \<Rightarrow> json_item list \<Rightarrow> world \<Rightarrow> response \<times> world" where
  "import_json_items uid [] w = (Redirect ''dashboard'', w)"
| "import_json_items uid (JOther # items) w = (ServerError AttributeError, w)"
| "import_json_items uid (JObject kvs # items) w =
     (let title_v = strip (py_str (item_get kvs ''title'' (JStr [])));
          date_v = strip (py_str (item_get kvs ''date'' (JStr [])));
          time_v = strip (py_str (item_get kvs ''time'' (JStr [])))
      in case py_int (item_get kvs ''duration_min'' (JInt 30)) of
           Inl e \<Rightarrow> (ServerError e, w)
         | Inr duration_v \<Rightarrow>
             let priority_v = strip (py_str (item_get kvs ''priority'' (JStr default_priority)));
                 notes_v = strip (py_str (item_get kvs ''notes'' (JStr [])));
                 completed_v = (if py_bool (item_get kvs ''completed'' (JInt 0)) then 1 else 0);
                 subject_name = strip (py_str (item_get kvs ''subject'' (JStr [])));
                 (subject_v, w1) =
                   (if truthy subject_name then resolve_subject uid subject_name w else (None, w));
                 w2 = insert_session
                        \<lparr>sid = 0, user_id = uid, subject_id = subject_v, title = title_v,
                         session_date = date_v, session_time = time_v, duration_min = duration_v,
                         priority = priority_v, notes_txt = notes_v, completed = completed_v,
                         reminder_sent = 0\<rparr> w1
             in import_json_items uid items w2)"

definition import_json :: "int \<Rightarrow> json_upload \<Rightarrow> world \<Rightarrow> response \<times> world" where
  "import_json uid file w =
     (case file of
        NoFile \<Rightarrow> (Redirect ''dashboard'', w)
      | Undecodable \<Rightarrow> (Redirect ''dashboard'', w)
      | NotIterable \<Rightarrow> (ServerError TypeError, w)
      | Items items \<Rightarrow> import_json_items uid items w)"

subsection \<open>CSV import\<close>

text \<open>
  The uploaded file as \<open>csv.DictReader\<close> yields it: one dictionary from column names to
  strings for each line (a column the line lacks has no entry).
\<close>

type_synonym csv_row = "(string \<times> string) list"

datatype csv_upload = CsvNoFile | CsvUndecodable | CsvRows "csv_row list"

text \<open>\<open>row.get(k) or d\<close>\<close>

definition row_get_or :: "csv_row \<Rightarrow> string \<Rightarrow> string \<Rightarrow> string" where
  "row_get_or row k d = (case map_of row k of None \<Rightarrow> d | Some v \<Rightarrow> if truthy v then v else d)"

text \<open>\<open>int(row.get(k) or d)\<close>\<close>

definition row_int_or :: "csv_row \<Rightarrow> string \<Rightarrow> int \<Rightarrow> py_exn + int" where
  "row_int_or row k d =
     (case map_of row k of None \<Rightarrow> Inr d | Some v \<Rightarrow> if truthy v then int_of_str v else Inr d)"

fun import_csv_rows :: "int \<Rightarrow> csv_row list \<Rightarrow> world \<Rightarrow> response \<times> world" where
  "import_csv_rows uid [] w = (Redirect ''dashboard'', w)"
| "import_csv_rows uid (row # rows) w =
     (let title_v = strip (row_get_or row ''title'' []);
          date_v = strip (row_get_or row ''date'' []);
          time_v = strip (row_get_or row ''time'' [])
      in case row_int_or row ''duration_min'' 30 of
           Inl e \<Rightarrow> (ServerError e, w)
         | Inr duration_v \<Rightarrow>
             let priority_v = strip (row_get_or row ''priority'' default_priority);
                 notes_v = strip (row_get_or row ''notes'' [])
             in case row_int_or row ''completed'' 0 of
                  Inl e \<Rightarrow> (ServerError e, w)
                | Inr completed_v \<Rightarrow>
                    let subject_name = strip (row_get_or row ''subject'' [])
                    in if \<not> truthy title_v \<or> \<not> truthy date_v \<or> \<not> truthy time_v
                       then import_csv_rows uid rows w
                       else
                         let (subject_v, w1) =
                               (if truthy subject_name then resolve_subject uid subject_name w
                                else (None, w));
                             w2 = insert_session
                                    \<lparr>sid = 0, user_id = uid, subject_id = subject_v, title = title_v,
                                     session_date = date_v, session_time = time_v,
                                     duration_min = duration_v, priority = priority_v,
                                     notes_txt = notes_v, completed = completed_v,
                                     reminder_sent = 0\<rparr> w1
                         in import_csv_rows uid rows w2)"

definition import_csv :: "int \<Rightarrow> csv_upload \<Rightarrow> world \<Rightarrow> response \<times> world" where
  "import_csv uid file w =
     (case file of
        CsvNoFile \<Rightarrow> (Redirect ''dashboard'', w)
      | CsvUndecodable \<Rightarrow> (Redirect ''dashboard'', w)
      | CsvRows rows \<Rightarrow> import_csv_rows uid rows w)"

subsection \<open>The dashboard\<close>

text \<open>
  The dashboard reads the store three times, computes its tips from the rows it read,
  then runs the sweep with the clock's \<open>now\<close>, then renders the page.
\<close>

definition dashboard :: "config \<Rightarrow> network \<Rightarrow> datetime \<Rightarrow> int \<Rightarrow> world \<Rightarrow> response \<times> world" where
  "dashboard cfg urlopen now uid w =
     (let w1 = log_call Query (log_call Query (log_call Query w))
      in case send_due_reminders cfg urlopen now uid w1 of
           Inl e \<Rightarrow> (ServerError e, w1)
         | Inr w2 \<Rightarrow> (Page ''dashboard.html'', w2))"

subsection \<open>Requests and runs\<close>

datatype request =
    CreateSession int form
  | ToggleSession int int
  | DeleteSession int int
  | CreateSubject int form
  | DeleteSubject int int
  | ImportJson int json_upload
  | ImportCsv int csv_upload
  | Dashboard int datetime

fun handle :: "config \<Rightarrow> network \<Rightarrow> request \<Rightarrow> world \<Rightarrow> response \<times> world" where
  "handle cfg urlopen (CreateSession uid f) w = create_session cfg urlopen uid f w"
| "handle cfg urlopen (ToggleSession uid i) w = toggle_session uid i w"
| "handle cfg urlopen (DeleteSession uid i) w = delete_session uid i w"
| "handle cfg urlopen (CreateSubject uid f) w = create_subject uid f w"
| "handle cfg urlopen (DeleteSubject uid i) w = delete_subject uid i w"
| "handle cfg urlopen (ImportJson uid file) w = import_json uid file w"
| "handle cfg urlopen (ImportCsv uid file) w = import_csv uid file w"
| "handle cfg urlopen (Dashboard uid now) w = dashboard cfg urlopen now uid w"

text \<open>
  The steps of a sequence of requests: the world before, the request, the world after.
\<close>

fun run_steps :: "config \<Rightarrow> network \<Rightarrow> request list \<Rightarrow> world \<Rightarrow> (world \<times> request \<times> world) list" where
  "run_steps cfg urlopen [] w = []"
| "run_steps cfg urlopen (rq # rqs) w =
     (w, rq, snd (handle cfg urlopen rq w)) # run_steps cfg urlopen rqs (snd (handle cfg urlopen rq w))"

section \<open>Notions used by the properties\<close>

text \<open>The row of a session in the store, by its id.\<close>

definition find_session :: "int \<Rightarrow> world \<Rightarrow> session_row option" where
  "find_session i w = find (\<lambda>r. sid r = i) (sessions w)"

text \<open>The loop's test on a row: the date and time parse, and the instant is in the window.\<close>

definition is_due :: "datetime \<Rightarrow> datetime \<Rightarrow> session_row \<Rightarrow> bool" where
  "is_due now window_end row =
     (case strptime (session_date row @ '' '' @ session_time row) of
        Inl e \<Rightarrow> False
      | Inr session_dt \<Rightarrow> in_window now window_end session_dt)"

text \<open>The rows the sweep of a user at \<open>now\<close> finds due, in the order of the table.\<close>

definition due_candidates :: "datetime \<Rightarrow> datetime \<Rightarrow> int \<Rightarrow> world \<Rightarrow> session_row list" where
  "due_candidates now window_end uid w =
     filter (is_due now window_end) (filter (is_candidate uid (date_isoformat now)) (sessions w))"

text \<open>The keys of the store are unique and below the counter.\<close>

definition wf_world :: "world \<Rightarrow> bool" where
  "wf_world w = (distinct (map sid (sessions w)) \<and> list_all (\<lambda>r. sid r < next_session_id w) (sessions w))"

text \<open>
  Between two consecutive worlds, the flag of session \<open>i\<close> rises when the session is in
  both, unsent in the first and sent in the second; it falls the other way round.
\<close>

definition flag_rises :: "int \<Rightarrow> world \<Rightarrow> world \<Rightarrow> bool" where
  "flag_rises i w w' =
     (case (find_session i w, find_session i w') of
        (Some r, Some r') \<Rightarrow> reminder_sent r = 0 \<and> reminder_sent r' \<noteq> 0
      | _ \<Rightarrow> False)"

definition flag_falls :: "int \<Rightarrow> world \<Rightarrow> world \<Rightarrow> bool" where
  "flag_falls i w w' =
     (case (find_session i w, find_session i w') of
        (Some r, Some r') \<Rightarrow> reminder_sent r \<noteq> 0 \<and> reminder_sent r' = 0
      | _ \<Rightarrow> False)"

text \<open>
  Session \<open>i\<close> is latched: its key was handed out, and a row with this key is sent.
\<close>

definition latched :: "int \<Rightarrow> world \<Rightarrow> bool" where
  "latched i w = (i < next_session_id w \<and> (\<forall>r \<in> set (sessions w). sid r = i \<longrightarrow> reminder_sent r \<noteq> 0))"

text \<open>
  A step that keeps the flags: the counter does not go back, unique keys stay unique, and
  every row afterwards either has the key and the flag of a row before, or is new (its
  key is not below the old counter) and unsent.
\<close>

definition keeps_flags :: "world \<Rightarrow> world \<Rightarrow> bool" where
  "keeps_flags w w' =
     (next_session_id w \<le> next_session_id w' \<and> (wf_world w \<longrightarrow> wf_world w') \<and>
      (\<forall>r' \<in> set (sessions w').
         (\<exists>r \<in> set (sessions w). sid r = sid r' \<and> reminder_sent r = reminder_sent r')
         \<or> (next_session_id w \<le> sid r' \<and> reminder_sent r' = 0)))"

text \<open>The store after the ids in \<open>S\<close> were marked.\<close>

definition marked :: "int set \<Rightarrow> session_row list \<Rightarrow> session_row list" where
  "marked S rows = map (\<lambda>r. if sid r \<in> S then r\<lparr>reminder_sent := 1\<rparr> else r) rows"

section \<open>Example values\<close>

text \<open>
  A configured and an unconfigured channel, a network that is down and one that answers,
  and a store with four sessions of user 7 on 2026-11-03: one at 10:29, one whose time
  does not parse, a completed one at 10:10 and one at 10:31.
\<close>

definition ex_cfg :: config where
  "ex_cfg = \<lparr>telegram_bot_token = Some ''123:abc'', telegram_chat_id = Some ''42''\<rparr>"

definition ex_cfg_off :: config where
  "ex_cfg_off = \<lparr>telegram_bot_token = None, telegram_chat_id = Some ''42''\<rparr>"

definition net_down :: network where
  "net_down req = Inl Timeout"

definition net_up :: network where
  "net_up req = Inr ()"

definition ex_now :: datetime where
  "ex_now = \<lparr>year = 2026, month = 11, day = 3, hour = 10, minute = 0, second = 0, microsecond = 0\<rparr>"

definition ex_row :: session_row where
  "ex_row = \<lparr>sid = 1, user_id = 7, subject_id = None, title = ''Algebra'',
     session_date = ''2026-11-03'', session_time = ''10:29'', duration_min = 45,
     priority = ''High'', notes_txt = [], completed = 0, reminder_sent = 0\<rparr>"

definition ex_world :: world where
  "ex_world = \<lparr>sessions =
       [ex_row,
        ex_row\<lparr>sid := 2, session_time := ''soon''\<rparr>,
        ex_row\<lparr>sid := 3, session_time := ''10:10'', completed := 1\<rparr>,
        ex_row\<lparr>sid := 4, session_time := ''10:31''\<rparr>],
     subjects = [], next_session_id = 5, next_subject_id = 1, db_log = [], outbox = []\<rparr>"



definition ex_empty :: world where
  "ex_empty = \<lparr>sessions = [], subjects = [], next_session_id = 1, next_subject_id = 1,
     db_log = [], outbox = []\<rparr>"


definition ex_short_form :: form where
  "ex_short_form = [(''title'', ''Algebra''), (''session_date'', ''2026-11-03''),
     (''session_time'', ''10:29''), (''duration_min'', ''5''), (''priority'', ''High'')]"

definition ex_json_file :: json_upload where
  "ex_json_file = Items [JObject [(''title'', JStr ''Algebra''), (''date'', JStr ''2026-11-03''),
     (''time'', JStr ''10:29''), (''duration_min'', JInt 5)]]"

definition ex_csv_file :: csv_upload where
  "ex_csv_file = CsvRows [[(''title'', ''Algebra''), (''date'', ''2026-11-03''),
     (''time'', ''10:29''), (''duration_min'', ''5'')]]"

section \<open>Evaluation and arithmetic lemmas\<close>

text \<open>\<open>strptime\<close> and \<open>int\<close> of a string raise nothing but \<open>ValueError\<close>.\<close>

lemma strptime_ValueError: "strptime s = Inl e \<Longrightarrow> e = ValueError"
  by (auto simp: strptime_def split: list.splits prod.splits if_splits)




lemma digit_char_simps:
  "digit_char 0 = CHR ''0''" "digit_char 1 = CHR ''1''" "digit_char 2 = CHR ''2''"
  "digit_char 3 = CHR ''3''" "digit_char 4 = CHR ''4''" "digit_char 5 = CHR ''5''"
  "digit_char 6 = CHR ''6''" "digit_char 7 = CHR ''7''" "digit_char 8 = CHR ''8''"
  "digit_char 9 = CHR ''9''" "digit_char (Suc 0) = CHR ''1''"
  by code_simp+

lemmas strptime_defs =
  strptime_def strptime_regex_def rx_m_def rx_d_def rx_H_def rx_M_def rx_spaces_def
  in_range_def is_digit_def is_space_def group_int_def digits_val_def digit_val_def
  days_in_month_def is_leap_def

lemmas isoformat_defs = date_isoformat_def zero_pad_def str_nat.simps digit_char_simps

subsection \<open>Adding minutes keeps the order\<close>



lemma next_day_fields:
  "next_day d = Some d' \<Longrightarrow>
     hour d' = hour d \<and> minute d' = minute d \<and> second d' = second d \<and> microsecond d' = microsecond d"
  by (auto simp: next_day_def split: if_splits)







section \<open>What the sweep computes\<close>

lemma send_telegram_message_eq:
  "send_telegram_message cfg urlopen text w =
     Inr (if configured cfg then w\<lparr>outbox := outbox w @ [build_request cfg text]\<rparr> else w)"
  by (simp add: send_telegram_message_def configured_def Let_def split: sum.splits)

lemma reminder_loop_eq:
  "configured cfg \<Longrightarrow>
   reminder_loop cfg urlopen now we rows (tm, w) =
     Inr (tm @ map sid (filter (is_due now we) rows),
          w\<lparr>outbox := outbox w @ map (\<lambda>x. build_request cfg (reminder_text x)) (filter (is_due now we) rows)\<rparr>)"
proof (induction rows arbitrary: tm w)
  case Nil
  then show ?case by simp
next
  case (Cons r rows)
  show ?case
  proof (cases "strptime (session_date r @ '' '' @ session_time r)")
    case (Inl e)
    then show ?thesis using Cons strptime_ValueError[OF Inl] by (simp add: is_due_def)
  next
    case (Inr dt)
    then show ?thesis using Cons
      by (simp add: is_due_def send_telegram_message_eq)
  qed
qed

lemma mark_sent_fold:
  "foldl (\<lambda>rows i. mark_sent i rows) rows ids =
     map (\<lambda>r. if sid r \<in> set ids then r\<lparr>reminder_sent := 1\<rparr> else r) rows"
proof (induction ids arbitrary: rows)
  case Nil
  then show ?case by simp
next
  case (Cons i ids)
  show ?case
    by (simp add: Cons.IH) (auto simp: mark_sent_def)
qed

lemma send_due_reminders_eq:
  assumes "configured cfg" and "plus_minutes now REMINDER_MINUTES = Some we"
  shows "send_due_reminders cfg urlopen now uid w =
     Inr (w\<lparr>sessions := map (\<lambda>r. if sid r \<in> sid ` set (due_candidates now we uid w)
                                     then r\<lparr>reminder_sent := 1\<rparr> else r) (sessions w),
             db_log := db_log w @ Query #
               (if due_candidates now we uid w = [] then []
                else [ExecuteMany (length (due_candidates now we uid w))]),
             outbox := outbox w @ map (\<lambda>x. build_request cfg (reminder_text x))
                                    (due_candidates now we uid w)\<rparr>)"
proof -
  define D where "D = due_candidates now we uid w"
  define C where "C = filter (is_candidate uid (date_isoformat now)) (sessions w)"
  have c: "truthy_opt (telegram_bot_token cfg)" "truthy_opt (telegram_chat_id cfg)"
    using assms(1) by (simp_all add: configured_def)
  have q: "query_candidates uid (date_isoformat now) w = (C, log_call Query w)"
    by (simp add: query_candidates_def C_def)
  have D: "filter (is_due now we) C = D"
    by (simp add: D_def C_def due_candidates_def)
  have loop: "reminder_loop cfg urlopen now we C ([], log_call Query w) =
      Inr (map sid D, (log_call Query w)\<lparr>outbox := outbox (log_call Query w)
             @ map (\<lambda>x. build_request cfg (reminder_text x)) D\<rparr>)"
    by (simp add: reminder_loop_eq[OF assms(1)] D)
  have "send_due_reminders cfg urlopen now uid w =
     Inr (w\<lparr>sessions := map (\<lambda>r. if sid r \<in> sid ` set D then r\<lparr>reminder_sent := 1\<rparr> else r) (sessions w),
             db_log := db_log w @ Query # (if D = [] then [] else [ExecuteMany (length D)]),
             outbox := outbox w @ map (\<lambda>x. build_request cfg (reminder_text x)) D\<rparr>)"
    unfolding send_due_reminders_def Let_def q
    using assms(2) c
    by (simp add: loop execute_many_mark_def mark_sent_fold del: split_paired_All) (simp add: log_call_def)
  then show ?thesis by (simp only: D_def)
qed

lemma due_candidates_subset:
  "set (due_candidates now we uid w) \<subseteq> set (sessions w)"
  by (auto simp: due_candidates_def)


lemma find_session_map:
  assumes "distinct (map sid (sessions w))" and "r \<in> set (sessions w)"
    and "\<And>x. sid (f x) = sid x"
  shows "find (\<lambda>x. sid x = sid r) (map f (sessions w)) = Some (f r)"
proof -
  have "\<And>rows. distinct (map sid rows) \<Longrightarrow> r \<in> set rows \<Longrightarrow> find (\<lambda>x. sid x = sid r) (map f rows) = Some (f r)"
  proof -
    fix rows show "distinct (map sid rows) \<Longrightarrow> r \<in> set rows \<Longrightarrow> find (\<lambda>x. sid x = sid r) (map f rows) = Some (f r)"
      by (induction rows) (auto simp: assms(3))
  qed
  then show ?thesis using assms by blast
qed

lemma due_candidates_distinct:
  "distinct (map sid (sessions w)) \<Longrightarrow> distinct (map sid (due_candidates now we uid w))"
  by (simp add: due_candidates_def distinct_map_filter)

lemma due_candidates_after_sweep:
  "due_candidates now we uid
     (w\<lparr>sessions := map (\<lambda>r. if sid r \<in> sid ` set (due_candidates now we uid w)
                              then r\<lparr>reminder_sent := 1\<rparr> else r) (sessions w),
        db_log := l, outbox := ob\<rparr>) = []"
proof -
  let ?D = "due_candidates now we uid w"
  have "\<not> (is_candidate uid (date_isoformat now) y \<and> is_due now we y)"
    if "y \<in> set (map (\<lambda>r. if sid r \<in> sid ` set ?D then r\<lparr>reminder_sent := 1\<rparr> else r) (sessions w))"
    for y
  proof -
    from that obtain r where r: "r \<in> set (sessions w)"
      and y: "y = (if sid r \<in> sid ` set ?D then r\<lparr>reminder_sent := 1\<rparr> else r)" by auto
    show ?thesis
    proof (cases "sid r \<in> sid ` set ?D")
      case True
      then show ?thesis using y by (simp add: is_candidate_def)
    next
      case False
      then have "r \<notin> set ?D" by auto
      then show ?thesis using y False r by (simp add: due_candidates_def)
    qed
  qed
  then have "filter (\<lambda>y. is_candidate uid (date_isoformat now) y \<and> is_due now we y)
      (map (\<lambda>r. if sid r \<in> sid ` set ?D then r\<lparr>reminder_sent := 1\<rparr> else r) (sessions w)) = []"
    unfolding filter_empty_conv by blast
  then show ?thesis
    by (simp add: due_candidates_def)
qed

lemma send_due_reminders_unconfigured:
  "\<not> configured cfg \<Longrightarrow> send_due_reminders cfg urlopen now uid w = Inr w"
  by (auto simp: send_due_reminders_def configured_def)

lemma send_due_reminders_Inr:
  assumes "configured cfg" and "send_due_reminders cfg urlopen now uid w = Inr w1"
  shows "\<exists>we. plus_minutes now REMINDER_MINUTES = Some we"
proof (cases "plus_minutes now REMINDER_MINUTES")
  case None
  then show ?thesis using assms by (simp add: send_due_reminders_def configured_def)
next
  case (Some we)
  then show ?thesis by simp
qed

subsection \<open>The example values, evaluated\<close>

lemmas strip_defs = strip_def strip_with_def is_space_def is_c_space_def truthy_def

lemmas int_of_str_defs = int_of_str_def int_of_unsigned_def is_digit_def digits_val_def digit_val_def


lemma ex_window_end: "plus_minutes ex_now REMINDER_MINUTES = Some (ex_now\<lparr>minute := 30\<rparr>)"
  by (simp add: plus_minutes_def REMINDER_MINUTES_def ex_now_def)

lemma ex_today: "date_isoformat ex_now = ''2026-11-03''"
  by (simp add: isoformat_defs ex_now_def)

lemma ex_configured: "configured ex_cfg"
  by (simp add: configured_def ex_cfg_def truthy_opt_def truthy_def)

lemma ex_distinct: "distinct (map sid (sessions ex_world))"
  by (simp add: ex_world_def ex_row_def)

lemma ex_strptime_1029: "strptime ''2026-11-03 10:29'' = Inr (ex_now\<lparr>minute := 29\<rparr>)"
  by (simp add: strptime_defs ex_now_def)

lemma ex_strptime_1031: "strptime ''2026-11-03 10:31'' = Inr (ex_now\<lparr>minute := 31\<rparr>)"
  by (simp add: strptime_defs ex_now_def)

lemma ex_strptime_1010: "strptime ''2026-11-03 10:10'' = Inr (ex_now\<lparr>minute := 10\<rparr>)"
  by (simp add: strptime_defs ex_now_def)

lemma ex_strptime_soon: "strptime ''2026-11-03 soon'' = Inl ValueError"
  by (simp add: strptime_defs)

lemma ex_due_candidates:
  "due_candidates ex_now (ex_now\<lparr>minute := 30\<rparr>) 7 ex_world = [ex_row]"
  by (simp add: due_candidates_def ex_today is_candidate_def is_due_def in_window_def
      dt_le_def dt_key_def ex_world_def ex_row_def
      ex_strptime_1029 ex_strptime_1031 ex_strptime_1010 ex_strptime_soon)
    (simp add: ex_now_def)

section \<open>The steps of a run\<close>

lemma find_session_SomeD:
  "find_session i w = Some r \<Longrightarrow> r \<in> set (sessions w) \<and> sid r = i"
  unfolding find_session_def by (induction "sessions w" arbitrary: w) (auto simp: find_Some_iff)

lemma find_session_None:
  "find_session i w = None \<longleftrightarrow> i \<notin> sid ` set (sessions w)"
  unfolding find_session_def by (auto simp: find_None_iff)

lemma find_session_unique:
  assumes "distinct (map sid (sessions w))" "r \<in> set (sessions w)"
  shows "find_session (sid r) w = Some r"
  using find_session_map[OF assms, of "\<lambda>x. x"] by (simp add: find_session_def)

lemma keeps_flags_refl: "keeps_flags w w"
  by (auto simp: keeps_flags_def)

lemma keeps_flags_trans:
  assumes "keeps_flags a b" "keeps_flags b c"
  shows "keeps_flags a c"
proof -
  have n: "next_session_id a \<le> next_session_id b" "next_session_id b \<le> next_session_id c"
    using assms by (simp_all add: keeps_flags_def)
  have rows: "(\<exists>r \<in> set (sessions a). sid r = sid r'' \<and> reminder_sent r = reminder_sent r'')
         \<or> (next_session_id a \<le> sid r'' \<and> reminder_sent r'' = 0)"
    if "r'' \<in> set (sessions c)" for r''
  proof -
    from assms(2) that consider
      r' where "r' \<in> set (sessions b)" "sid r' = sid r''" "reminder_sent r' = reminder_sent r''"
      | "next_session_id b \<le> sid r''" "reminder_sent r'' = 0"
      unfolding keeps_flags_def by blast
    then show ?thesis
    proof cases
      case 1
      from assms(1) 1(1) consider
        r where "r \<in> set (sessions a)" "sid r = sid r'" "reminder_sent r = reminder_sent r'"
        | "next_session_id a \<le> sid r'" "reminder_sent r' = 0"
        unfolding keeps_flags_def by blast
      then show ?thesis
      proof cases
        case 1
        then show ?thesis using \<open>sid r' = sid r''\<close> \<open>reminder_sent r' = reminder_sent r''\<close> by auto
      next
        case 2
        then show ?thesis using \<open>sid r' = sid r''\<close> \<open>reminder_sent r' = reminder_sent r''\<close> by auto
      qed
    next
      case 2
      then show ?thesis using n by auto
    qed
  qed
  show ?thesis
    unfolding keeps_flags_def using n assms rows by (auto simp: keeps_flags_def)
qed

lemma keeps_flags_same:
  assumes "sessions w' = sessions w" "next_session_id w' = next_session_id w"
  shows "keeps_flags w w'"
  using assms by (auto simp: keeps_flags_def wf_world_def)

lemma keeps_flags_log: "keeps_flags w (log_call c w)"
  by (rule keeps_flags_same) (simp_all add: log_call_def)

lemma keeps_flags_map:
  assumes "sessions w' = map f (sessions w)" "next_session_id w' = next_session_id w"
    and "\<And>r. sid (f r) = sid r \<and> reminder_sent (f r) = reminder_sent r"
  shows "keeps_flags w w'"
proof -
  have "sid \<circ> f = sid" using assms(3) by (intro ext) simp
  then have wf: "wf_world w \<Longrightarrow> wf_world w'"
    using assms by (auto simp: wf_world_def list_all_iff)
  show ?thesis
    unfolding keeps_flags_def using assms wf by auto
qed

lemma keeps_flags_filter:
  assumes "sessions w' = filter P (sessions w)" "next_session_id w' = next_session_id w"
  shows "keeps_flags w w'"
proof -
  have wf: "wf_world w \<Longrightarrow> wf_world w'"
    using assms by (auto simp: wf_world_def list_all_iff distinct_map_filter)
  show ?thesis
    unfolding keeps_flags_def using assms wf by auto
qed

lemma keeps_flags_insert_session:
  assumes "reminder_sent r = 0"
  shows "keeps_flags w (insert_session r w)"
proof -
  have wf: "wf_world w \<Longrightarrow> wf_world (insert_session r w)"
    by (fastforce simp: wf_world_def insert_session_def log_call_def list_all_iff)
  show ?thesis
    unfolding keeps_flags_def using assms wf
    by (auto simp: insert_session_def log_call_def)
qed

lemma keeps_flags_insert_subject: "keeps_flags w (insert_subject s w)"
  by (rule keeps_flags_same) (simp_all add: insert_subject_def log_call_def)

lemma keeps_flags_resolve_subject: "keeps_flags w (snd (resolve_subject uid name_v w))"
  by (rule keeps_flags_same)
    (simp_all add: resolve_subject_def insert_subject_def log_call_def Let_def split: option.splits)

lemma keeps_flags_create_session: "keeps_flags w (snd (create_session cfg urlopen uid f w))"
proof -
  have "keeps_flags w (w'\<lparr>outbox := ob\<rparr>)" if "keeps_flags w w'" for w' ob
    by (rule keeps_flags_trans[OF that]) (rule keeps_flags_same, simp_all)
  then show ?thesis
    by (auto simp: create_session_def Let_def send_telegram_message_eq keeps_flags_refl
        keeps_flags_insert_session split: sum.splits)
qed

lemma keeps_flags_toggle_session: "keeps_flags w (snd (toggle_session uid i w))"
  by (rule keeps_flags_map[where f = "\<lambda>r. if sid r = i \<and> user_id r = uid
                       then r\<lparr>completed := (if completed r = 1 then 0 else 1)\<rparr> else r"])
    (simp_all add: toggle_session_def log_call_def)

lemma keeps_flags_delete_session: "keeps_flags w (snd (delete_session uid i w))"
  by (rule keeps_flags_filter[where P = "\<lambda>r. \<not> (sid r = i \<and> user_id r = uid)"])
    (simp_all add: delete_session_def log_call_def)

lemma keeps_flags_create_subject: "keeps_flags w (snd (create_subject uid f w))"
  by (simp add: create_subject_def Let_def keeps_flags_refl keeps_flags_insert_subject)

lemma keeps_flags_delete_subject: "keeps_flags w (snd (delete_subject uid i w))"
  by (rule keeps_flags_map[where f = "\<lambda>r. if subject_id r = Some i \<and> user_id r = uid
                                then r\<lparr>subject_id := None\<rparr> else r"])
    (simp_all add: delete_subject_def log_call_def Let_def)

lemma keeps_flags_import_json_items:
  "keeps_flags w (snd (import_json_items uid items w))"
proof (induction uid items w rule: import_json_items.induct)
  case (1 uid w)
  then show ?case by (simp add: keeps_flags_refl)
next
  case (2 uid items w)
  then show ?case by (simp add: keeps_flags_refl)
next
  case (3 uid kvs items w)
  show ?case
  proof (cases "py_int (item_get kvs ''duration_min'' (JInt 30))")
    case (Inl e)
    then show ?thesis by (simp add: keeps_flags_refl)
  next
    case (Inr d)
    let ?name = "strip (py_str (item_get kvs ''subject'' (JStr [])))"
    obtain sv w1 where sw: "(if truthy ?name then resolve_subject uid ?name w else (None, w)) = (sv, w1)"
      by (cases "(if truthy ?name then resolve_subject uid ?name w else (None, w))") auto
    have k1: "keeps_flags w w1"
      using sw keeps_flags_resolve_subject[of w uid ?name]
      by (auto simp: keeps_flags_refl split: if_splits)
    define row where "row = \<lparr>sid = 0, user_id = uid, subject_id = sv,
        title = strip (py_str (item_get kvs ''title'' (JStr []))),
        session_date = strip (py_str (item_get kvs ''date'' (JStr []))),
        session_time = strip (py_str (item_get kvs ''time'' (JStr []))),
        duration_min = d,
        priority = strip (py_str (item_get kvs ''priority'' (JStr default_priority))),
        notes_txt = strip (py_str (item_get kvs ''notes'' (JStr []))),
        completed = (if py_bool (item_get kvs ''completed'' (JInt 0)) then 1 else 0),
        reminder_sent = 0\<rparr>"
    have k2: "keeps_flags w1 (insert_session row w1)"
      by (rule keeps_flags_insert_session) (simp add: row_def)
    have k3: "keeps_flags (insert_session row w1) (snd (import_json_items uid items (insert_session row w1)))"
      using "3.IH"[OF refl refl refl Inr refl refl refl refl, of "(sv, w1)" sv w1 "insert_session row w1"] sw
      by (simp add: row_def)
    have "snd (import_json_items uid (JObject kvs # items) w)
        = snd (import_json_items uid items (insert_session row w1))"
      using Inr sw by (simp add: Let_def row_def)
    then show ?thesis
      using keeps_flags_trans[OF k1 keeps_flags_trans[OF k2 k3]] by simp
  qed
qed

lemma keeps_flags_import_csv_rows:
  "keeps_flags w (snd (import_csv_rows uid rows w))"
proof (induction rows arbitrary: w)
  case Nil
  then show ?case by (simp add: keeps_flags_refl)
next
  case (Cons row rows)
  show ?case
  proof (cases "row_int_or row ''duration_min'' 30")
    case (Inl e)
    then show ?thesis by (simp add: keeps_flags_refl)
  next
    case d: (Inr d)
    show ?thesis
    proof (cases "row_int_or row ''completed'' 0")
      case (Inl e)
      then show ?thesis using d by (simp add: keeps_flags_refl)
    next
      case c: (Inr c)
      let ?name = "strip (row_get_or row ''subject'' [])"
      show ?thesis
      proof (cases "\<not> truthy (strip (row_get_or row ''title'' []))
          \<or> \<not> truthy (strip (row_get_or row ''date'' []))
          \<or> \<not> truthy (strip (row_get_or row ''time'' []))")
        case True
        then have "snd (import_csv_rows uid (row # rows) w) = snd (import_csv_rows uid rows w)"
          using d c by (simp add: Let_def)
        then show ?thesis using Cons.IH[of w] by simp
      next
        case False
        obtain sv w1 where sw: "(if truthy ?name then resolve_subject uid ?name w else (None, w)) = (sv, w1)"
          by (cases "(if truthy ?name then resolve_subject uid ?name w else (None, w))") auto
        have k1: "keeps_flags w w1"
          using sw keeps_flags_resolve_subject[of w uid ?name]
          by (auto simp: keeps_flags_refl split: if_splits)
        define r where "r = \<lparr>sid = 0, user_id = uid, subject_id = sv,
            title = strip (row_get_or row ''title'' []),
            session_date = strip (row_get_or row ''date'' []),
            session_time = strip (row_get_or row ''time'' []),
            duration_min = d,
            priority = strip (row_get_or row ''priority'' default_priority),
            notes_txt = strip (row_get_or row ''notes'' []),
            completed = c, reminder_sent = 0\<rparr>"
        have k2: "keeps_flags w1 (insert_session r w1)"
          by (rule keeps_flags_insert_session) (simp add: r_def)
        have "snd (import_csv_rows uid (row # rows) w)
            = snd (import_csv_rows uid rows (insert_session r w1))"
          using d c sw False by (simp add: Let_def r_def)
        then show ?thesis
          using keeps_flags_trans[OF k1 keeps_flags_trans[OF k2 Cons.IH[of "insert_session r w1"]]]
          by simp
      qed
    qed
  qed
qed

lemma keeps_flags_import_json: "keeps_flags w (snd (import_json uid file w))"
  by (cases "file") (simp_all add: import_json_def keeps_flags_refl keeps_flags_import_json_items)

lemma keeps_flags_import_csv: "keeps_flags w (snd (import_csv uid file w))"
  by (cases "file") (simp_all add: import_csv_def keeps_flags_refl keeps_flags_import_csv_rows)

text \<open>The dashboard marks some candidates of its sweep and changes no other row.\<close>

lemma dashboard_marks:
  "\<exists>S. S \<subseteq> sid ` {r \<in> set (sessions w). is_candidate uid (date_isoformat now) r}
     \<and> sessions (snd (dashboard cfg urlopen now uid w)) = marked S (sessions w)
     \<and> next_session_id (snd (dashboard cfg urlopen now uid w)) = next_session_id w"
proof -
  let ?w1 = "log_call Query (log_call Query (log_call Query w))"
  have w1: "sessions ?w1 = sessions w" "next_session_id ?w1 = next_session_id w"
    by (simp_all add: log_call_def)
  have id: "marked {} (sessions w) = sessions w" by (simp add: marked_def)
  show ?thesis
  proof (cases "configured cfg")
    case False
    then have "snd (dashboard cfg urlopen now uid w) = ?w1"
      by (simp add: dashboard_def Let_def send_due_reminders_unconfigured)
    then show ?thesis using w1 id by (intro exI[of _ "{}"]) simp
  next
    case True
    show ?thesis
    proof (cases "plus_minutes now REMINDER_MINUTES")
      case None
      then have "send_due_reminders cfg urlopen now uid ?w1 = Inl OverflowError"
        using True by (simp add: send_due_reminders_def configured_def)
      then have "snd (dashboard cfg urlopen now uid w) = ?w1"
        by (simp add: dashboard_def Let_def)
      then show ?thesis using w1 id by (intro exI[of _ "{}"]) simp
    next
      case (Some we)
      let ?D = "due_candidates now we uid ?w1"
      have D: "set ?D \<subseteq> {r \<in> set (sessions w). is_candidate uid (date_isoformat now) r}"
        by (auto simp: due_candidates_def w1)
      have "sessions (snd (dashboard cfg urlopen now uid w)) = marked (sid ` set ?D) (sessions w)"
        "next_session_id (snd (dashboard cfg urlopen now uid w)) = next_session_id w"
        unfolding dashboard_def Let_def send_due_reminders_eq[OF True Some]
        by (simp_all add: marked_def w1)
      then show ?thesis using D by (intro exI[of _ "sid ` set ?D"]) auto
    qed
  qed
qed

lemma handle_step:
  "keeps_flags w (snd (handle cfg urlopen rq w))
   \<or> (\<exists>uid now S. rq = Dashboard uid now
        \<and> S \<subseteq> sid ` {r \<in> set (sessions w). is_candidate uid (date_isoformat now) r}
        \<and> sessions (snd (handle cfg urlopen rq w)) = marked S (sessions w)
        \<and> next_session_id (snd (handle cfg urlopen rq w)) = next_session_id w)"
proof (cases rq)
  case (Dashboard uid now)
  then show ?thesis using dashboard_marks[of w uid now cfg urlopen] by auto
qed (simp_all add: keeps_flags_create_session keeps_flags_toggle_session
      keeps_flags_delete_session keeps_flags_create_subject keeps_flags_delete_subject
      keeps_flags_import_json keeps_flags_import_csv)

lemma same_sid_same_row:
  assumes "wf_world w" "r \<in> set (sessions w)" "r0 \<in> set (sessions w)" "sid r0 = sid r"
  shows "r0 = r"
  using assms by (meson distinct_map inj_onD wf_world_def)

lemma sid_below_counter:
  assumes "wf_world w" "r \<in> set (sessions w)"
  shows "sid r < next_session_id w"
  using assms by (auto simp: wf_world_def list_all_iff)

lemma marked_row:
  assumes "r' \<in> set (marked S rows)"
  shows "\<exists>r \<in> set rows. sid r = sid r' \<and>
           (if sid r \<in> S then reminder_sent r' = 1 else r' = r)"
  using assms by (auto simp: marked_def)

lemma wf_marked:
  assumes "wf_world w" "sessions w' = marked S (sessions w)" "next_session_id w' = next_session_id w"
  shows "wf_world w'"
proof -
  have "map sid (marked S (sessions w)) = map sid (sessions w)"
    by (simp add: marked_def comp_def)
  moreover have "sid r' < next_session_id w" if "r' \<in> set (marked S (sessions w))" for r'
    using marked_row[OF that] assms(1) by (auto simp: wf_world_def list_all_iff)
  ultimately show ?thesis using assms by (simp add: wf_world_def list_all_iff)
qed

lemma wf_handle:
  assumes "wf_world w"
  shows "wf_world (snd (handle cfg urlopen rq w))"
  using handle_step[of w cfg urlopen rq] assms wf_marked
  by (auto simp: keeps_flags_def)

text \<open>
  What a request does to the row of session \<open>i\<close>, when the session is there before and
  after: the flag stays, or the request is a dashboard view whose sweep had the session
  as a candidate and the flag is 1 afterwards.
\<close>

lemma handle_row:
  assumes wf: "wf_world w"
    and r: "find_session i w = Some r"
    and r': "find_session i (snd (handle cfg urlopen rq w)) = Some r'"
  shows "reminder_sent r' = reminder_sent r
      \<or> (reminder_sent r' = 1 \<and> (\<exists>uid now. rq = Dashboard uid now
            \<and> is_candidate uid (date_isoformat now) r))"
proof -
  let ?w' = "snd (handle cfg urlopen rq w)"
  have rin: "r \<in> set (sessions w)" "sid r = i" using find_session_SomeD[OF r] by simp_all
  have rin': "r' \<in> set (sessions ?w')" "sid r' = i" using find_session_SomeD[OF r'] by simp_all
  from handle_step[of w cfg urlopen rq] show ?thesis
  proof (elim disjE exE conjE)
    assume k: "keeps_flags w ?w'"
    from k rin'(1) consider
      r0 where "r0 \<in> set (sessions w)" "sid r0 = sid r'" "reminder_sent r0 = reminder_sent r'"
      | "next_session_id w \<le> sid r'"
      unfolding keeps_flags_def by blast
    then show ?thesis
    proof cases
      case 1
      then have "r0 = r" using same_sid_same_row[OF wf rin(1)] rin rin' by simp
      then show ?thesis using 1 by simp
    next
      case 2
      then show ?thesis using sid_below_counter[OF wf rin(1)] rin rin' by simp
    qed
  next
    fix uid now S
    assume rq: "rq = Dashboard uid now"
      and S: "S \<subseteq> sid ` {r \<in> set (sessions w). is_candidate uid (date_isoformat now) r}"
      and m: "sessions ?w' = marked S (sessions w)"
    from marked_row[of r' S "sessions w"] rin'(1) m obtain r0
      where r0: "r0 \<in> set (sessions w)" "sid r0 = sid r'"
        "if sid r0 \<in> S then reminder_sent r' = 1 else r' = r0" by auto
    then have eq: "r0 = r" using same_sid_same_row[OF wf rin(1)] rin rin' by simp
    show ?thesis
    proof (cases "sid r \<in> S")
      case True
      then obtain c where c: "c \<in> set (sessions w)" "is_candidate uid (date_isoformat now) c" "sid c = sid r"
        using S by auto
      then have "c = r" using same_sid_same_row[OF wf rin(1)] by simp
      then show ?thesis using c True r0 eq rq by auto
    next
      case False
      then show ?thesis using r0 eq by simp
    qed
  qed
qed

lemma new_row_unsent:
  assumes wf: "wf_world w"
    and none: "find_session i w = None"
    and r': "find_session i (snd (handle cfg urlopen rq w)) = Some r'"
  shows "reminder_sent r' = 0"
proof -
  let ?w' = "snd (handle cfg urlopen rq w)"
  have rin': "r' \<in> set (sessions ?w')" "sid r' = i" using find_session_SomeD[OF r'] by simp_all
  have no: "\<And>r0. r0 \<in> set (sessions w) \<Longrightarrow> sid r0 \<noteq> i"
    using none by (auto simp: find_session_None)
  from handle_step[of w cfg urlopen rq] show ?thesis
  proof (elim disjE exE conjE)
    assume "keeps_flags w ?w'"
    then show ?thesis using rin' no unfolding keeps_flags_def by blast
  next
    fix uid now S
    assume "sessions ?w' = marked S (sessions w)"
    then show ?thesis using marked_row[of r' S "sessions w"] rin' no by auto
  qed
qed

lemma latched_handle:
  assumes wf: "wf_world w" and l: "latched i w"
  shows "latched i (snd (handle cfg urlopen rq w))"
proof -
  let ?w' = "snd (handle cfg urlopen rq w)"
  from handle_step[of w cfg urlopen rq] show ?thesis
  proof (elim disjE exE conjE)
    assume k: "keeps_flags w ?w'"
    have "reminder_sent r' \<noteq> 0" if "r' \<in> set (sessions ?w')" "sid r' = i" for r'
    proof -
      from k that(1) consider
        r0 where "r0 \<in> set (sessions w)" "sid r0 = sid r'" "reminder_sent r0 = reminder_sent r'"
        | "next_session_id w \<le> sid r'"
        unfolding keeps_flags_def by blast
      then show ?thesis using l that(2) by cases (auto simp: latched_def)
    qed
    moreover have "i < next_session_id ?w'" using k l by (auto simp: keeps_flags_def latched_def)
    ultimately show ?thesis by (auto simp: latched_def)
  next
    fix uid now S
    assume m: "sessions ?w' = marked S (sessions w)"
      and n: "next_session_id ?w' = next_session_id w"
    have "reminder_sent r' \<noteq> 0" if "r' \<in> set (sessions ?w')" "sid r' = i" for r'
      using marked_row[of r' S "sessions w"] that m l by (auto simp: latched_def split: if_splits)
    then show ?thesis using l n by (auto simp: latched_def)
  qed
qed

lemma rise_latches:
  assumes "wf_world w'" "flag_rises i w w'"
  shows "latched i w'"
proof -
  from assms(2) obtain r' where r': "find_session i w' = Some r'" "reminder_sent r' \<noteq> 0"
    by (auto simp: flag_rises_def split: option.splits)
  have rin: "r' \<in> set (sessions w')" "sid r' = i" using find_session_SomeD[OF r'(1)] by simp_all
  have "x = r'" if "x \<in> set (sessions w')" "sid x = i" for x
    using same_sid_same_row[OF assms(1) rin(1) that(1)] that(2) rin(2) by simp
  then show ?thesis
    using r'(2) sid_below_counter[OF assms(1) rin(1)] rin(2) by (auto simp: latched_def)
qed

lemma latched_no_rise: "latched i w \<Longrightarrow> \<not> flag_rises i w w'"
  by (auto simp: latched_def flag_rises_def split: option.splits dest: find_session_SomeD)

lemma latched_run_no_rise:
  assumes "wf_world w" "latched i w"
  shows "filter (\<lambda>(a, rq, b). flag_rises i a b) (run_steps cfg urlopen rqs w) = []"
  using assms
proof (induction rqs arbitrary: w)
  case Nil
  then show ?case by simp
next
  case (Cons rq rqs)
  then show ?case
    using latched_no_rise[of i w] wf_handle[of w cfg urlopen rq] latched_handle[of w i cfg urlopen rq]
    by simp
qed

lemma run_rises_once:
  assumes "wf_world w"
  shows "length (filter (\<lambda>(a, rq, b). flag_rises i a b) (run_steps cfg urlopen rqs w)) \<le> 1"
  using assms
proof (induction rqs arbitrary: w)
  case Nil
  then show ?case by simp
next
  case (Cons rq rqs)
  let ?w' = "snd (handle cfg urlopen rq w)"
  have wf': "wf_world ?w'" using Cons.prems by (rule wf_handle)
  show ?case
  proof (cases "flag_rises i w ?w'")
    case True
    then have "latched i ?w'" using rise_latches[OF wf'] by simp
    then show ?thesis using True latched_run_no_rise[OF wf'] by simp
  next
    case False
    then show ?thesis using Cons.IH[OF wf'] by simp
  qed
qed

lemma run_steps_wf:
  assumes "wf_world w" "(a, rq, b) \<in> set (run_steps cfg urlopen rqs w)"
  shows "wf_world a \<and> b = snd (handle cfg urlopen rq a)"
  using assms
proof (induction rqs arbitrary: w)
  case Nil
  then show ?case by simp
next
  case (Cons x rqs)
  then show ?case using wf_handle[of w cfg urlopen x] by auto
qed

lemma ex_empty_wf: "wf_world ex_empty"
  by (simp add: wf_world_def ex_empty_def)

lemma ex_world_wf: "wf_world ex_world"
  by (simp add: wf_world_def ex_world_def ex_row_def)

lemma due_candidates_log: "due_candidates now we uid (log_call c w) = due_candidates now we uid w"
  by (simp add: due_candidates_def log_call_def)

lemma ex_dashboard_rises:
  "flag_rises 1 ex_world (snd (handle ex_cfg net_down (Dashboard 7 ex_now) ex_world))"
proof -
  have "sessions (snd (handle ex_cfg net_down (Dashboard 7 ex_now) ex_world))
      = map (\<lambda>r. if sid r \<in> sid ` set [ex_row] then r\<lparr>reminder_sent := 1\<rparr> else r) (sessions ex_world)"
    unfolding handle.simps dashboard_def Let_def send_due_reminders_eq[OF ex_configured ex_window_end]
      due_candidates_log ex_due_candidates
    by (simp add: log_call_def)
  then show ?thesis
    by (simp add: flag_rises_def find_session_def ex_world_def ex_row_def)
qed

section \<open>Properties\<close>



text \<open>
  C2. When a sweep has returned, a second sweep of the same user at the same \<open>now\<close> on
  the world the first one left sends nothing and changes no row, whatever the network
  does: a row the first sweep marked is no candidate of the second. The requests of the
  first sweep are those of a list of rows of the store with pairwise different ids, so
  both sweeps together send at most one notification for a session.
\<close>

theorem sweep_twice_sends_once:
  assumes first: "send_due_reminders cfg urlopen now uid w = Inr w1"
    and wf: "distinct (map sid (sessions w))"
  shows "\<exists>w2 D. send_due_reminders cfg urlopen' now uid w1 = Inr w2
      \<and> set D \<subseteq> set (sessions w) \<and> distinct (map sid D)
      \<and> outbox w1 = outbox w @ map (\<lambda>x. build_request cfg (reminder_text x)) D
      \<and> outbox w2 = outbox w1 \<and> sessions w2 = sessions w1
      \<and> (\<forall>x \<in> set (sessions w1). sid x \<in> sid ` set D \<longrightarrow>
            x \<notin> set (fst (query_candidates uid (date_isoformat now) w1)))"
proof (cases "configured cfg")
  case False
  then have "w1 = w" using first by (simp add: send_due_reminders_unconfigured)
  then show ?thesis
    using False by (intro exI[of _ w] exI[of _ "[]"]) (simp add: send_due_reminders_unconfigured)
next
  case True
  from send_due_reminders_Inr[OF True first] obtain we
    where we: "plus_minutes now REMINDER_MINUTES = Some we" by blast
  let ?D = "due_candidates now we uid w"
  have w1: "w1 = w\<lparr>sessions := map (\<lambda>r. if sid r \<in> sid ` set ?D
                                     then r\<lparr>reminder_sent := 1\<rparr> else r) (sessions w),
             db_log := db_log w @ Query # (if ?D = [] then [] else [ExecuteMany (length ?D)]),
             outbox := outbox w @ map (\<lambda>x. build_request cfg (reminder_text x)) ?D\<rparr>"
    using first unfolding send_due_reminders_eq[OF True we] by simp
  have none: "due_candidates now we uid w1 = []"
    unfolding w1 by (rule due_candidates_after_sweep)
  have second: "send_due_reminders cfg urlopen' now uid w1 = Inr (w1\<lparr>db_log := db_log w1 @ [Query]\<rparr>)"
    unfolding send_due_reminders_eq[OF True we] none by simp
  have excl: "x \<notin> set (fst (query_candidates uid (date_isoformat now) w1))"
    if "x \<in> set (sessions w1)" "sid x \<in> sid ` set ?D" for x
  proof -
    from that(1) obtain r where "r \<in> set (sessions w)"
      and "x = (if sid r \<in> sid ` set ?D then r\<lparr>reminder_sent := 1\<rparr> else r)"
      unfolding w1 by auto
    with that(2) have "reminder_sent x = 1" by (auto split: if_splits)
    then show ?thesis by (simp add: query_candidates_def is_candidate_def)
  qed
  define w2 where "w2 = w1\<lparr>db_log := db_log w1 @ [Query]\<rparr>"
  have a: "send_due_reminders cfg urlopen' now uid w1 = Inr w2"
    using second by (simp add: w2_def)
  have b: "outbox w1 = outbox w @ map (\<lambda>x. build_request cfg (reminder_text x)) ?D"
    by (simp add: w1)
  have c: "outbox w2 = outbox w1" "sessions w2 = sessions w1"
    by (simp_all add: w2_def)
  have d: "\<forall>x \<in> set (sessions w1). sid x \<in> sid ` set ?D \<longrightarrow>
            x \<notin> set (fst (query_candidates uid (date_isoformat now) w1))"
    using excl by blast
  show ?thesis
    by (intro exI[of _ w2] exI[of _ ?D] conjI)
      (rule a due_candidates_subset due_candidates_distinct[OF wf] b c d)+
qed

theorem sweep_twice_sends_once_witness:
  "distinct (map sid (sessions ex_world))
   \<and> (\<exists>w1 w2. send_due_reminders ex_cfg net_down ex_now 7 ex_world = Inr w1
         \<and> send_due_reminders ex_cfg net_up ex_now 7 w1 = Inr w2
         \<and> outbox w1 = [build_request ex_cfg (reminder_text ex_row)]
         \<and> outbox w2 = outbox w1 \<and> sessions w2 = sessions w1)"
proof -
  obtain w1 where w1: "send_due_reminders ex_cfg net_down ex_now 7 ex_world = Inr w1"
    and o1: "outbox w1 = [build_request ex_cfg (reminder_text ex_row)]"
    unfolding send_due_reminders_eq[OF ex_configured ex_window_end] ex_due_candidates
    by (simp add: ex_world_def)
  from sweep_twice_sends_once[OF w1 ex_distinct, of net_up]
  obtain w2 where "send_due_reminders ex_cfg net_up ex_now 7 w1 = Inr w2"
    "outbox w2 = outbox w1" "sessions w2 = sessions w1" by blast
  with w1 o1 have "\<exists>w1 w2. send_due_reminders ex_cfg net_down ex_now 7 ex_world = Inr w1
         \<and> send_due_reminders ex_cfg net_up ex_now 7 w1 = Inr w2
         \<and> outbox w1 = [build_request ex_cfg (reminder_text ex_row)]
         \<and> outbox w2 = outbox w1 \<and> sessions w2 = sessions w1"
    by (intro exI[of _ w1] exI[of _ w2]) simp
  with ex_distinct show ?thesis by (rule conjI)
qed



text \<open>
  C4. With the bot token or the chat id missing or empty, the sweep returns at once with
  the world it was given: no call of the store is logged, no row changes, nothing is
  handed to the network, and no exception is raised.
\<close>

theorem sweep_unconfigured_noop:
  assumes "\<not> truthy_opt (telegram_bot_token cfg) \<or> \<not> truthy_opt (telegram_chat_id cfg)"
  shows "send_due_reminders cfg urlopen now uid w = Inr w"
  using assms by (auto simp: send_due_reminders_def)

theorem sweep_unconfigured_noop_witness:
  "\<not> truthy_opt (telegram_bot_token ex_cfg_off)
   \<and> send_due_reminders ex_cfg_off net_up ex_now 7 ex_world = Inr ex_world"
proof -
  have h: "\<not> truthy_opt (telegram_bot_token ex_cfg_off)"
    by (simp add: ex_cfg_off_def truthy_opt_def)
  then have "\<not> truthy_opt (telegram_bot_token ex_cfg_off) \<or> \<not> truthy_opt (telegram_chat_id ex_cfg_off)"
    by simp
  from sweep_unconfigured_noop[OF this] h show ?thesis by simp
qed






text \<open>
  C7. Along every sequence of requests (creating, toggling and deleting sessions,
  creating and deleting subjects, the two imports, dashboard views with their sweep) that
  starts in a store with unique keys below the counter, for every session id: the flag
  rises (from 0 to non-zero) in at most one step; it falls in no step; once the session is
  sent, it stays sent or is gone for good; a step in which the flag rises is a dashboard
  view of the session's owner at a \<open>now\<close> whose date is the session's date; and a session
  that appears in a step appears unsent.
\<close>

theorem reminder_flag_is_a_latch:
  assumes "wf_world w"
  shows "length (filter (\<lambda>(a, rq, b). flag_rises i a b) (run_steps cfg urlopen rqs w)) \<le> 1
     \<and> (\<forall>(a, rq, b) \<in> set (run_steps cfg urlopen rqs w).
           \<not> flag_falls i a b
           \<and> (latched i a \<longrightarrow> latched i b)
           \<and> (flag_rises i a b \<longrightarrow>
                 (\<exists>uid now r. rq = Dashboard uid now \<and> find_session i a = Some r
                    \<and> user_id r = uid \<and> session_date r = date_isoformat now))
           \<and> (\<forall>r'. find_session i a = None \<longrightarrow> find_session i b = Some r' \<longrightarrow> reminder_sent r' = 0))"
proof -
  have step: "\<not> flag_falls i a b
           \<and> (latched i a \<longrightarrow> latched i b)
           \<and> (flag_rises i a b \<longrightarrow>
                 (\<exists>uid now r. rq = Dashboard uid now \<and> find_session i a = Some r
                    \<and> user_id r = uid \<and> session_date r = date_isoformat now))
           \<and> (\<forall>r'. find_session i a = None \<longrightarrow> find_session i b = Some r' \<longrightarrow> reminder_sent r' = 0)"
    if "(a, rq, b) \<in> set (run_steps cfg urlopen rqs w)" for a rq b
  proof -
    from run_steps_wf[OF assms that] have wf: "wf_world a" and b: "b = snd (handle cfg urlopen rq a)"
      by simp_all
    have 1: "\<not> flag_falls i a b"
    proof
      assume "flag_falls i a b"
      then obtain r r' where "find_session i a = Some r" "find_session i b = Some r'"
        "reminder_sent r \<noteq> 0" "reminder_sent r' = 0"
        by (auto simp: flag_falls_def split: option.splits)
      then show False using handle_row[OF wf, of i r cfg urlopen rq r'] b by auto
    qed
    have 2: "latched i a \<longrightarrow> latched i b"
      using latched_handle[OF wf] b by simp
    have 3: "\<exists>uid now r. rq = Dashboard uid now \<and> find_session i a = Some r
                    \<and> user_id r = uid \<and> session_date r = date_isoformat now"
      if "flag_rises i a b"
    proof -
      from that obtain r r' where r: "find_session i a = Some r" "find_session i b = Some r'"
        "reminder_sent r = 0" "reminder_sent r' \<noteq> 0"
        by (auto simp: flag_rises_def split: option.splits)
      then show ?thesis
        using handle_row[OF wf, of i r cfg urlopen rq r'] b by (auto simp: is_candidate_def)
    qed
    have 4: "\<forall>r'. find_session i a = None \<longrightarrow> find_session i b = Some r' \<longrightarrow> reminder_sent r' = 0"
      using new_row_unsent[OF wf, of i cfg urlopen rq] b by simp
    from 1 2 3 4 show ?thesis by blast
  qed
  have "\<forall>(a, rq, b) \<in> set (run_steps cfg urlopen rqs w).
           \<not> flag_falls i a b
           \<and> (latched i a \<longrightarrow> latched i b)
           \<and> (flag_rises i a b \<longrightarrow>
                 (\<exists>uid now r. rq = Dashboard uid now \<and> find_session i a = Some r
                    \<and> user_id r = uid \<and> session_date r = date_isoformat now))
           \<and> (\<forall>r'. find_session i a = None \<longrightarrow> find_session i b = Some r' \<longrightarrow> reminder_sent r' = 0)"
  proof (intro ballI)
    fix x assume x: "x \<in> set (run_steps cfg urlopen rqs w)"
    obtain a rq b where xe: "x = (a, rq, b)" by (cases x) auto
    show "case x of (a, rq, b) \<Rightarrow>
           \<not> flag_falls i a b
           \<and> (latched i a \<longrightarrow> latched i b)
           \<and> (flag_rises i a b \<longrightarrow>
                 (\<exists>uid now r. rq = Dashboard uid now \<and> find_session i a = Some r
                    \<and> user_id r = uid \<and> session_date r = date_isoformat now))
           \<and> (\<forall>r'. find_session i a = None \<longrightarrow> find_session i b = Some r' \<longrightarrow> reminder_sent r' = 0)"
      unfolding xe prod.case by (rule step[OF x[unfolded xe]])
  qed
  with run_rises_once[OF assms, of i cfg urlopen rqs] show ?thesis by (rule conjI)
qed

theorem reminder_flag_is_a_latch_witness:
  "wf_world ex_world
   \<and> flag_rises 1 ex_world (snd (handle ex_cfg net_down (Dashboard 7 ex_now) ex_world))
   \<and> \<not> flag_falls 1 ex_world (snd (handle ex_cfg net_down (Dashboard 7 ex_now) ex_world))
   \<and> (\<exists>r. find_session 1 ex_world = Some r \<and> user_id r = 7
          \<and> session_date r = date_isoformat ex_now)
   \<and> length (filter (\<lambda>(a, rq, b). flag_rises 1 a b)
        (run_steps ex_cfg net_down [Dashboard 7 ex_now, Dashboard 7 ex_now] ex_world)) \<le> 1"
proof -
  let ?w' = "snd (handle ex_cfg net_down (Dashboard 7 ex_now) ex_world)"
  have "(ex_world, Dashboard 7 ex_now, ?w') \<in> set (run_steps ex_cfg net_down [Dashboard 7 ex_now] ex_world)"
    by simp
  with reminder_flag_is_a_latch[OF ex_world_wf, of 1 ex_cfg net_down "[Dashboard 7 ex_now]"]
  have "\<not> flag_falls 1 ex_world ?w'"
    and "flag_rises 1 ex_world ?w' \<longrightarrow>
           (\<exists>uid now r. Dashboard 7 ex_now = Dashboard uid now \<and> find_session 1 ex_world = Some r
              \<and> user_id r = uid \<and> session_date r = date_isoformat now)"
    by blast+
  then have a: "\<not> flag_falls 1 ex_world ?w'"
    and b: "\<exists>r. find_session 1 ex_world = Some r \<and> user_id r = 7 \<and> session_date r = date_isoformat ex_now"
    using ex_dashboard_rises by auto
  have c: "length (filter (\<lambda>(a, rq, b). flag_rises 1 a b)
        (run_steps ex_cfg net_down [Dashboard 7 ex_now, Dashboard 7 ex_now] ex_world)) \<le> 1"
    using reminder_flag_is_a_latch[OF ex_world_wf, of 1 ex_cfg net_down "[Dashboard 7 ex_now, Dashboard 7 ex_now]"]
    by (rule conjunct1)
  from ex_world_wf ex_dashboard_rises a b c show ?thesis by blast
qed







text \<open>
  C9. The form clamps the duration to at least 10 minutes; the two imports store the
  duration of the file as it is. The same session with a duration of 5 is stored with 10
  by \<open>create_session\<close> and with 5 by \<open>import_json\<close> and by \<open>import_csv\<close>.
\<close>

theorem import_stores_short_duration:
  "map duration_min (sessions (snd (create_session ex_cfg net_up 7 ex_short_form ex_empty))) = [10]
   \<and> fst (import_json 7 ex_json_file ex_empty) = Redirect ''dashboard''
   \<and> map duration_min (sessions (snd (import_json 7 ex_json_file ex_empty))) = [5]
   \<and> fst (import_csv 7 ex_csv_file ex_empty) = Redirect ''dashboard''
   \<and> map duration_min (sessions (snd (import_csv 7 ex_csv_file ex_empty))) = [5]"
proof -
  have f: "strip (form_get ex_short_form ''title'' []) = ''Algebra''"
    "strip (form_get ex_short_form ''session_date'' []) = ''2026-11-03''"
    "strip (form_get ex_short_form ''session_time'' []) = ''10:29''"
    "strip (form_get ex_short_form ''duration_min'' []) = ''5''"
    "strip (form_get ex_short_form ''subject_id'' []) = []"
    by (simp_all add: ex_short_form_def form_get_def strip_defs)
  have i5: "int_of_str ''5'' = Inr 5" by (simp add: int_of_str_defs strip_defs)
  have 1: "map duration_min (sessions (snd (create_session ex_cfg net_up 7 ex_short_form ex_empty))) = [10]"
    by (simp add: create_session_def Let_def f i5 truthy_def send_telegram_message_eq
        insert_session_def log_call_def ex_empty_def)
  have j: "import_json 7 ex_json_file ex_empty =
      (Redirect ''dashboard'',
       insert_session \<lparr>sid = 0, user_id = 7, subject_id = None, title = ''Algebra'',
          session_date = ''2026-11-03'', session_time = ''10:29'', duration_min = 5,
          priority = strip default_priority, notes_txt = [], completed = 0,
          reminder_sent = 0\<rparr> ex_empty)"
    by (simp add: import_json_def ex_json_file_def item_get_def strip_defs Let_def)
  have c: "import_csv 7 ex_csv_file ex_empty =
      (Redirect ''dashboard'',
       insert_session \<lparr>sid = 0, user_id = 7, subject_id = None, title = ''Algebra'',
          session_date = ''2026-11-03'', session_time = ''10:29'', duration_min = 5,
          priority = strip default_priority, notes_txt = [], completed = 0,
          reminder_sent = 0\<rparr> ex_empty)"
    by (simp add: import_csv_def ex_csv_file_def row_get_or_def row_int_or_def strip_defs i5 Let_def)
  show ?thesis
    unfolding j c using 1 by (simp add: insert_session_def log_call_def ex_empty_def)
qed

theorem import_stores_short_duration_witness:
  "(\<exists>r. sessions (snd (import_json 7 ex_json_file ex_empty)) = [r] \<and> duration_min r < 10)
   \<and> (\<exists>r. sessions (snd (import_csv 7 ex_csv_file ex_empty)) = [r] \<and> duration_min r < 10)"
proof -
  have short: "\<exists>r. rows = [r] \<and> duration_min r < 10" if "map duration_min rows = [5]" for rows
    using that by (cases rows) auto
  have j: "map duration_min (sessions (snd (import_json 7 ex_json_file ex_empty))) = [5]"
    and c: "map duration_min (sessions (snd (import_csv 7 ex_csv_file ex_empty))) = [5]"
    using import_stores_short_duration by simp_all
  show ?thesis using short[OF j] short[OF c] by (rule conjI)
qed

end
